theory Spec2Isabelle
  imports Main
begin

section \<open>The service worker \<^verbatim>\<open>sw.js\<close> of Checkmate GP\<close>

text \<open>
  The worker consists of two constants and three event handlers (install, activate,
  fetch). Everything the handlers call is a primitive of the hosting browser:
  \<^verbatim>\<open>fetch\<close>, \<^verbatim>\<open>caches.open\<close>, \<^verbatim>\<open>cache.addAll\<close>, \<^verbatim>\<open>cache.put\<close>,
  \<^verbatim>\<open>caches.match\<close>, \<^verbatim>\<open>caches.keys\<close>, \<^verbatim>\<open>caches.delete\<close>. The embedding keeps the
  cache storage as an explicit store that the handlers read and return updated, takes
  the network and the store's acceptance of a write as parameters, turns every
  rejected promise into an error value, and records every call of a primitive in a
  trace, so that "no network call" and "no cache access" are statements about a value.
\<close>

subsection \<open>Data\<close>

text \<open>A response snapshot: what a cache entry holds and what the network answers.\<close>

record response =
  status :: nat
  body :: string

text \<open>\<^verbatim>\<open>Response.ok\<close>: the status is in the range 200 to 299.\<close>

definition response_ok :: "response \<Rightarrow> bool" where
  "response_ok r = (200 \<le> status r \<and> status r \<le> 299)"

text \<open>
  A cache generation is a list of entries keyed by request URL, in insertion order; the
  cache storage is the list of named generations, in creation order (the order in which
  \<^verbatim>\<open>caches.keys\<close> lists them and \<^verbatim>\<open>caches.match\<close> searches them).
\<close>

type_synonym cache = "(string \<times> response) list"
type_synonym cache_storage = "(string \<times> cache) list"

text \<open>
  The request of a fetch event. \<open>url_origin\<close> and \<open>url_pathname\<close> are the
  \<^verbatim>\<open>origin\<close> and \<^verbatim>\<open>pathname\<close> of \<^verbatim>\<open>new URL(e.request.url)\<close>;
  \<open>request_url\<close> is the key under which the Cache API files the request.
\<close>

record request =
  request_method :: string
  request_mode :: string
  request_url :: string
  url_origin :: string
  url_pathname :: string

text \<open>
  The host, as far as the worker depends on it: \<^verbatim>\<open>location.origin\<close>; the network,
  where \<open>None\<close> is a \<^verbatim>\<open>fetch\<close> whose promise rejects; and whether the Cache API
  accepts an entry (it refuses, for example, when the quota is exceeded).
\<close>

record platform =
  location_origin :: string
  fetch_net :: "string \<Rightarrow> response option"
  put_ok :: "string \<Rightarrow> response \<Rightarrow> bool"

datatype error = FetchRejected | BadStatus | PutRejected

text \<open>The calls of host primitives, in the order the worker issues them.\<close>

datatype effect =
    NetFetch string
  | CacheOpen string
  | CachePut string string
  | CacheMatch string
  | CacheKeys
  | CacheDelete string
  | SkipWaiting
  | ClientsClaim

text \<open>
  The promise chain \<^verbatim>\<open>caches.open(name).then(cache => cache.put(request, clone))\<close>,
  which the handler starts and does not return or await. The handler itself calls
  \<^verbatim>\<open>caches.open\<close>; what is left behind is the \<^verbatim>\<open>cache.put\<close> on the opened
  generation.
\<close>

datatype task = OpenPut string string response

record world =
  caches :: cache_storage
  pending :: "task list"
  trace :: "effect list"

text \<open>What a fetch event ends with: no \<^verbatim>\<open>respondWith\<close> at all, or the settlement of
  the promise handed to \<^verbatim>\<open>respondWith\<close>.\<close>

datatype outcome =
    PassThrough
  | Respond response
  | RespondUndefined
  | RespondRejected error

text \<open>
  What the page gets for its request. Without \<^verbatim>\<open>respondWith\<close> the browser handles
  the request itself; a promise that rejects, or that resolves with something that is not
  a response, reaches the page as a network error.
\<close>

datatype delivery = BrowserDefault | Delivered response | NetworkError

fun page_receives :: "outcome \<Rightarrow> delivery" where
  "page_receives PassThrough = BrowserDefault"
| "page_receives (Respond r) = Delivered r"
| "page_receives RespondUndefined = NetworkError"
| "page_receives (RespondRejected e) = NetworkError"

subsection \<open>Constants of the worker\<close>

definition CACHE_NAME :: string where
  "CACHE_NAME = ''checkmate-gp-v1''"

definition ASSETS :: "string list" where
  "ASSETS =
    [ ''./'',
      ''./index.html'',
      ''./manifest.json'',
      ''./icons/icon-192.png'',
      ''./icons/icon-512.png'',
      ''./icons/apple-touch-icon.png'' ]"

subsection \<open>The primitives of the cache storage\<close>

text \<open>\<^verbatim>\<open>caches.open(name)\<close> creates the generation when it does not exist.\<close>

definition caches_open :: "string \<Rightarrow> cache_storage \<Rightarrow> cache_storage" where
  "caches_open name S = (if name \<in> set (map fst S) then S else S @ [(name, [])])"

definition cache_of :: "string \<Rightarrow> cache_storage \<Rightarrow> cache" where
  "cache_of name S = (case map_of S name of Some c \<Rightarrow> c | None \<Rightarrow> [])"

definition cache_keys :: "string \<Rightarrow> cache_storage \<Rightarrow> string list" where
  "cache_keys name S = map fst (cache_of name S)"

text \<open>\<^verbatim>\<open>cache.put\<close> removes the entry filed under the key, then appends the new one.\<close>

definition put_entry :: "string \<Rightarrow> response \<Rightarrow> cache \<Rightarrow> cache" where
  "put_entry k r c = filter (\<lambda>e. fst e \<noteq> k) c @ [(k, r)]"

definition set_cache :: "string \<Rightarrow> cache \<Rightarrow> cache_storage \<Rightarrow> cache_storage" where
  "set_cache name c S = map (\<lambda>g. if fst g = name then (name, c) else g) S"

text \<open>\<^verbatim>\<open>caches.match(request)\<close> searches every generation, in creation order, and
  resolves with the first entry found, or with \<^verbatim>\<open>undefined\<close>.\<close>

fun caches_match :: "string \<Rightarrow> cache_storage \<Rightarrow> response option" where
  "caches_match k [] = None"
| "caches_match k (g # S) =
     (case map_of (snd g) k of Some r \<Rightarrow> Some r | None \<Rightarrow> caches_match k S)"

definition caches_keys :: "cache_storage \<Rightarrow> string list" where
  "caches_keys S = map fst S"

definition caches_delete :: "string \<Rightarrow> cache_storage \<Rightarrow> cache_storage" where
  "caches_delete name S = filter (\<lambda>g. fst g \<noteq> name) S"

text \<open>
  \<^verbatim>\<open>cache.addAll(urls)\<close> fetches every URL, rejects when a fetch rejects or a response
  is not ok, and only then stores the responses, all of them or none. (The worker calls
  it with the six distinct keys of \<open>ASSETS\<close> only.)
\<close>

fun fetch_all :: "platform \<Rightarrow> string list \<Rightarrow> error + (string \<times> response) list" where
  "fetch_all P [] = Inr []"
| "fetch_all P (u # us) =
     (case fetch_net P u of
        None \<Rightarrow> Inl FetchRejected
      | Some r \<Rightarrow>
          if \<not> response_ok r then Inl BadStatus
          else (case fetch_all P us of
                  Inl e \<Rightarrow> Inl e
                | Inr rs \<Rightarrow> Inr ((u, r) # rs)))"

fun put_all :: "platform \<Rightarrow> (string \<times> response) list \<Rightarrow> cache \<Rightarrow> error + cache" where
  "put_all P [] c = Inr c"
| "put_all P (e # es) c =
     (if put_ok P (fst e) (snd e) then put_all P es (put_entry (fst e) (snd e) c)
      else Inl PutRejected)"

definition cache_addAll :: "platform \<Rightarrow> string list \<Rightarrow> cache \<Rightarrow> error + cache" where
  "cache_addAll P urls c =
     (case fetch_all P urls of Inl e \<Rightarrow> Inl e | Inr rs \<Rightarrow> put_all P rs c)"

subsection \<open>Install\<close>

text \<open>
  \<^verbatim>\<open>caches.open(CACHE_NAME).then(cache => cache.addAll(ASSETS)).then(() => self.skipWaiting())\<close>,
  handed to \<^verbatim>\<open>waitUntil\<close>: the event fails when the chain rejects, and
  \<^verbatim>\<open>skipWaiting\<close> runs only after \<^verbatim>\<open>addAll\<close> has resolved.
\<close>

definition install :: "platform \<Rightarrow> world \<Rightarrow> (error + unit) \<times> world" where
  "install P w =
     (let S1 = caches_open CACHE_NAME (caches w);
          w1 = w\<lparr>caches := S1,
                 trace := trace w @ CacheOpen CACHE_NAME # map NetFetch ASSETS\<rparr>
      in case cache_addAll P ASSETS (cache_of CACHE_NAME S1) of
           Inl e \<Rightarrow> (Inl e, w1)
         | Inr c \<Rightarrow>
             (Inr (),
              w1\<lparr>caches := set_cache CACHE_NAME c S1,
                 trace := trace w1 @ map (CachePut CACHE_NAME) ASSETS @ [SkipWaiting]\<rparr>))"

subsection \<open>Activate\<close>

text \<open>
  \<^verbatim>\<open>caches.keys().then(keys => Promise.all(keys.filter(k => k !== CACHE_NAME).map(k => caches.delete(k)))).then(() => self.clients.claim())\<close>.
\<close>

definition activate :: "world \<Rightarrow> world" where
  "activate w =
     (let keys = caches_keys (caches w);
          stale = filter (\<lambda>k. k \<noteq> CACHE_NAME) keys
      in w\<lparr>caches := fold caches_delete stale (caches w),
            trace := trace w @ CacheKeys # map CacheDelete stale @ [ClientsClaim]\<rparr>)"

subsection \<open>Fetch\<close>

text \<open>\<^verbatim>\<open>String.prototype.endsWith\<close>.\<close>

definition endsWith :: "string \<Rightarrow> string \<Rightarrow> bool" where
  "endsWith s suf =
     (length suf \<le> length s \<and> drop (length s - length suf) s = suf)"

text \<open>Shorthand for the two tests of the fetch handler: the request is not bypassed
  (lines 34 and 35), and it meets the condition of the first branch (line 38).\<close>

abbreviation intercepted :: "platform \<Rightarrow> request \<Rightarrow> bool" where
  "intercepted P req \<equiv>
     request_method req = ''GET'' \<and> url_origin req = location_origin P"

abbreviation navigation_or_html :: "request \<Rightarrow> bool" where
  "navigation_or_html req \<equiv>
     request_mode req = ''navigate'' \<or> endsWith (url_pathname req) ''.html''"

text \<open>
  The body of the first \<^verbatim>\<open>respondWith\<close>: \<^verbatim>\<open>fetch(e.request)\<close>; when it
  resolves, \<^verbatim>\<open>caches.open(CACHE_NAME)\<close> is called, the \<^verbatim>\<open>cache.put\<close> of the clone
  is left behind, and the response is returned; when it rejects,
  \<^verbatim>\<open>caches.match(e.request)\<close> settles the promise, with \<^verbatim>\<open>undefined\<close> when
  nothing matches.
\<close>

definition network_first :: "platform \<Rightarrow> request \<Rightarrow> world \<Rightarrow> outcome \<times> world" where
  "network_first P req w =
     (case fetch_net P (request_url req) of
        Some res \<Rightarrow>
          (Respond res,
           w\<lparr>caches := caches_open CACHE_NAME (caches w),
             pending := pending w @ [OpenPut CACHE_NAME (request_url req) res],
             trace := trace w @ [NetFetch (request_url req), CacheOpen CACHE_NAME]\<rparr>)
      | None \<Rightarrow>
          (case caches_match (request_url req) (caches w) of
             Some cached \<Rightarrow> Respond cached
           | None \<Rightarrow> RespondUndefined,
           w\<lparr>trace := trace w @ [NetFetch (request_url req), CacheMatch (request_url req)]\<rparr>))"

text \<open>
  The body of the second \<^verbatim>\<open>respondWith\<close>: \<^verbatim>\<open>caches.match(e.request)\<close> first; a
  hit is returned; on a miss \<^verbatim>\<open>fetch(e.request)\<close>, whose rejection nothing catches
  and whose response is handled as in the first body.
\<close>

definition cache_first :: "platform \<Rightarrow> request \<Rightarrow> world \<Rightarrow> outcome \<times> world" where
  "cache_first P req w =
     (case caches_match (request_url req) (caches w) of
        Some cached \<Rightarrow>
          (Respond cached, w\<lparr>trace := trace w @ [CacheMatch (request_url req)]\<rparr>)
      | None \<Rightarrow>
          (case fetch_net P (request_url req) of
             Some res \<Rightarrow>
               (Respond res,
                w\<lparr>caches := caches_open CACHE_NAME (caches w),
                  pending := pending w @ [OpenPut CACHE_NAME (request_url req) res],
                  trace := trace w @ [CacheMatch (request_url req), NetFetch (request_url req),
                                      CacheOpen CACHE_NAME]\<rparr>)
           | None \<Rightarrow>
               (RespondRejected FetchRejected,
                w\<lparr>trace := trace w @ [CacheMatch (request_url req), NetFetch (request_url req)]\<rparr>)))"

definition fetch_handler :: "platform \<Rightarrow> request \<Rightarrow> world \<Rightarrow> outcome \<times> world" where
  "fetch_handler P req w =
     (if request_method req \<noteq> ''GET'' then (PassThrough, w)
      else if url_origin req \<noteq> location_origin P then (PassThrough, w)
      else if request_mode req = ''navigate'' \<or> endsWith (url_pathname req) ''.html''
        then network_first P req w
      else cache_first P req w)"

text \<open>
  A handler runs against the store as it stands when its event is handled; the writes
  that earlier events left behind run between events, one at a time.
\<close>

text \<open>
  Running a write that a handler left behind: \<^verbatim>\<open>cache.put\<close> stores the clone in
  the generation that the handler opened, when the host accepts it; a rejection of this
  chain reaches nobody. A generation deleted in the meantime is no longer part of the
  storage, and the write does not bring it back.
\<close>

fun run_task :: "platform \<Rightarrow> task \<Rightarrow> world \<Rightarrow> world" where
  "run_task P (OpenPut name k r) w =
     (if put_ok P k r
      then w\<lparr>caches := set_cache name (put_entry k r (cache_of name (caches w))) (caches w),
             trace := trace w @ [CachePut name k]\<rparr>
      else w\<lparr>trace := trace w @ [CachePut name k]\<rparr>)"

definition run_pending :: "platform \<Rightarrow> world \<Rightarrow> world" where
  "run_pending P w =
     (case pending w of
        [] \<Rightarrow> w
      | t # ts \<Rightarrow> run_task P t (w\<lparr>pending := ts\<rparr>))"

text \<open>The first call of a host primitive made between two worlds.\<close>

definition first_call :: "world \<Rightarrow> world \<Rightarrow> effect option" where
  "first_call w w' =
     (case drop (length (trace w)) (trace w') of [] \<Rightarrow> None | c # cs \<Rightarrow> Some c)"

subsection \<open>Concrete hosts and stores\<close>

text \<open>Inputs on which the theorems below are run.\<close>

definition ok_response :: "string \<Rightarrow> response" where
  "ok_response u = \<lparr>status = 200, body = u\<rparr>"

definition host_up :: platform where
  "host_up = \<lparr>location_origin = ''https://checkmate.example'',
              fetch_net = (\<lambda>u. Some (ok_response u)),
              put_ok = (\<lambda>u r. True)\<rparr>"

definition host_partial :: platform where
  "host_partial = \<lparr>location_origin = ''https://checkmate.example'',
              fetch_net = (\<lambda>u. if u = ''./manifest.json'' then None else Some (ok_response u)),
              put_ok = (\<lambda>u r. True)\<rparr>"

definition world0 :: world where
  "world0 = \<lparr>caches = [], pending = [], trace = []\<rparr>"

definition host_down :: platform where
  "host_down = \<lparr>location_origin = ''https://checkmate.example'',
                fetch_net = (\<lambda>u. None),
                put_ok = (\<lambda>u r. True)\<rparr>"

definition not_found :: response where
  "not_found = \<lparr>status = 404, body = ''Not Found''\<rparr>"

definition host_404 :: platform where
  "host_404 = \<lparr>location_origin = ''https://checkmate.example'',
               fetch_net = (\<lambda>u. Some not_found),
               put_ok = (\<lambda>u r. True)\<rparr>"

definition req_page :: request where
  "req_page = \<lparr>request_method = ''GET'', request_mode = ''navigate'',
               request_url = ''https://checkmate.example/'',
               url_origin = ''https://checkmate.example'', url_pathname = ''/''\<rparr>"

definition req_html :: request where
  "req_html = \<lparr>request_method = ''GET'', request_mode = ''cors'',
               request_url = ''https://checkmate.example/index.html'',
               url_origin = ''https://checkmate.example'', url_pathname = ''/index.html''\<rparr>"

definition req_icon :: request where
  "req_icon = \<lparr>request_method = ''GET'', request_mode = ''no-cors'',
               request_url = ''https://checkmate.example/icons/icon-192.png'',
               url_origin = ''https://checkmate.example'',
               url_pathname = ''/icons/icon-192.png''\<rparr>"

definition req_post :: request where
  "req_post = \<lparr>request_method = ''POST'', request_mode = ''cors'',
               request_url = ''https://checkmate.example/index.html'',
               url_origin = ''https://checkmate.example'', url_pathname = ''/index.html''\<rparr>"

definition req_api :: request where
  "req_api = \<lparr>request_method = ''GET'', request_mode = ''cors'',
              request_url = ''https://api.openai.com/v1/models'',
              url_origin = ''https://api.openai.com'', url_pathname = ''/v1/models''\<rparr>"

definition old_icon :: response where
  "old_icon = \<lparr>status = 200, body = ''icon of v0''\<rparr>"

definition old_page :: response where
  "old_page = \<lparr>status = 200, body = ''page of v0''\<rparr>"

definition world_stale :: world where
  "world_stale =
     \<lparr>caches = [(''checkmate-gp-v0'',
                  [(''https://checkmate.example/icons/icon-192.png'', old_icon),
                   (''https://checkmate.example/index.html'', old_page)]),
                (''checkmate-gp-v1'', [])],
      pending = [], trace = []\<rparr>"

definition world_cached :: world where
  "world_cached =
     \<lparr>caches = [(''checkmate-gp-v1'',
                  [(''https://checkmate.example/icons/icon-192.png'',
                    ok_response ''https://checkmate.example/icons/icon-192.png'')])],
      pending = [], trace = []\<rparr>"

definition host_full :: platform where
  "host_full = \<lparr>location_origin = ''https://checkmate.example'',
                fetch_net = (\<lambda>u. Some (ok_response u)),
                put_ok = (\<lambda>u r. u \<noteq> ''./icons/icon-512.png'')\<rparr>"

section \<open>Properties\<close>

subsection \<open>Facts about the primitives\<close>

lemma fetch_all_Inr_iff:
  "fetch_all P us = Inr rs \<longleftrightarrow>
     (rs = map (\<lambda>u. (u, the (fetch_net P u))) us \<and>
      (\<forall>u \<in> set us. \<exists>r. fetch_net P u = Some r \<and> response_ok r))"
  by (induction us arbitrary: rs) (auto split: option.splits sum.splits)

lemma put_entry_keys: "fst ` set (put_entry k r c) = insert k (fst ` set c)"
  by (auto simp: put_entry_def)

lemma put_all_Inr_iff:
  "(\<exists>c'. put_all P es c = Inr c') \<longleftrightarrow> (\<forall>e \<in> set es. put_ok P (fst e) (snd e))"
  by (induction es arbitrary: c) auto

lemma put_all_keys:
  "put_all P es c = Inr c' \<Longrightarrow> set (map fst c') = set (map fst c) \<union> set (map fst es)"
proof (induction es arbitrary: c)
  case Nil
  then show ?case by simp
next
  case (Cons e es)
  from Cons.prems have rest: "put_all P es (put_entry (fst e) (snd e) c) = Inr c'"
    by (simp split: if_splits)
  from Cons.IH [OF rest] show ?case
    by (simp add: put_entry_keys)
qed

lemma caches_open_mem: "name \<in> fst ` set (caches_open name S)"
  by (simp add: caches_open_def)

lemma cache_of_set_cache:
  "name \<in> fst ` set S \<Longrightarrow> cache_of name (set_cache name c S) = c"
  by (induction S) (auto simp: cache_of_def set_cache_def)

lemma cache_addAll_keys:
  "cache_addAll P us c = Inr c' \<Longrightarrow> set (map fst c') = set (map fst c) \<union> set us"
proof -
  assume a: "cache_addAll P us c = Inr c'"
  then obtain rs where f: "fetch_all P us = Inr rs" and p: "put_all P rs c = Inr c'"
    by (auto simp: cache_addAll_def split: sum.splits)
  from f have "map fst rs = us" by (simp add: fetch_all_Inr_iff comp_def)
  with put_all_keys [OF p] show ?thesis by simp
qed


lemma install_succeeds_iff:
  "(\<exists>w'. install P w = (Inr (), w')) \<longleftrightarrow>
     (\<forall>a \<in> set ASSETS. \<exists>r. fetch_net P a = Some r \<and> response_ok r \<and> put_ok P a r)"
proof -
  let ?c = "cache_of CACHE_NAME (caches_open CACHE_NAME (caches w))"
  let ?rs = "map (\<lambda>u. (u, the (fetch_net P u))) ASSETS"
  have "(\<exists>w'. install P w = (Inr (), w')) \<longleftrightarrow> (\<exists>c'. cache_addAll P ASSETS ?c = Inr c')"
    by (auto simp: install_def Let_def split: sum.splits)
  also have "\<dots> \<longleftrightarrow> (\<exists>rs. fetch_all P ASSETS = Inr rs \<and> (\<exists>c'. put_all P rs ?c = Inr c'))"
    by (auto simp: cache_addAll_def split: sum.splits)
  also have "\<dots> \<longleftrightarrow> (fetch_all P ASSETS = Inr ?rs \<and> (\<forall>e \<in> set ?rs. put_ok P (fst e) (snd e)))"
    unfolding put_all_Inr_iff by (auto simp: fetch_all_Inr_iff)
  also have "\<dots> \<longleftrightarrow> (\<forall>a \<in> set ASSETS. \<exists>r. fetch_net P a = Some r \<and> response_ok r \<and> put_ok P a r)"
    by (simp add: fetch_all_Inr_iff) (metis option.sel)
  finally show ?thesis .
qed

lemma install_keys:
  assumes "install P w = (Inr u, w')"
  shows "set (cache_keys CACHE_NAME (caches w')) =
           set (cache_keys CACHE_NAME (caches w)) \<union> set ASSETS"
proof -
  let ?S1 = "caches_open CACHE_NAME (caches w)"
  from assms obtain c where c: "cache_addAll P ASSETS (cache_of CACHE_NAME ?S1) = Inr c"
    and w': "caches w' = set_cache CACHE_NAME c ?S1"
    by (auto simp: install_def Let_def split: sum.splits)
  have "cache_of CACHE_NAME (caches w') = c"
    unfolding w' by (rule cache_of_set_cache) (rule caches_open_mem)
  moreover have "cache_of CACHE_NAME ?S1 = cache_of CACHE_NAME (caches w)"
    by (auto simp: caches_open_def cache_of_def map_of_eq_None_iff [symmetric]
          simp del: map_of_eq_None_iff split: option.splits)
  ultimately show ?thesis
    using cache_addAll_keys [OF c] by (simp add: cache_keys_def)
qed

lemmas install_eval =
  install_def cache_addAll_def caches_open_def cache_of_def set_cache_def put_entry_def
  cache_keys_def response_ok_def ASSETS_def CACHE_NAME_def Let_def

lemma fold_caches_delete:
  "fold caches_delete ns S = filter (\<lambda>g. fst g \<notin> set ns) S"
  by (induction ns arbitrary: S) (auto simp: caches_delete_def intro: filter_cong)

lemma map_of_filter_name: "map_of (filter (\<lambda>g. fst g = n) S) n = map_of S n"
  by (induction S) auto

lemma caches_activate:
  "caches (activate w) = filter (\<lambda>g. fst g = CACHE_NAME) (caches w)"
  by (auto simp: activate_def Let_def fold_caches_delete caches_keys_def intro: filter_cong)

lemma activate_keys:
  "set (caches_keys (caches (activate w))) = set (caches_keys (caches w)) \<inter> {CACHE_NAME}"
  by (force simp: caches_activate caches_keys_def)

lemma first_call_append:
  "trace w' = trace w @ c # cs \<Longrightarrow> first_call w w' = Some c"
  by (simp add: first_call_def)

lemma caches_match_None_map_of:
  "caches_match k S = None \<longleftrightarrow> (\<forall>g \<in> set S. map_of (snd g) k = None)"
  by (induction S) (auto simp del: map_of_eq_None_iff split: option.splits)

lemma caches_match_None_iff:
  "caches_match k S = None \<longleftrightarrow> (\<forall>g \<in> set S. k \<notin> fst ` set (snd g))"
  by (simp add: caches_match_None_map_of map_of_eq_None_iff)

lemmas request_eval =
  req_page_def req_html_def req_icon_def req_post_def req_api_def endsWith_def

lemma put_entry_map_of:
  "map_of (put_entry k r c) k' = (if k' = k then Some r else map_of c k')"
  by (induction c) (auto simp: put_entry_def)

lemma cache_of_caches_open:
  "cache_of n (caches_open name S) = cache_of n S"
  by (auto simp: caches_open_def cache_of_def map_of_eq_None_iff [symmetric]
        simp del: map_of_eq_None_iff split: option.splits if_splits)

lemma cache_of_set_cache_other:
  "n \<noteq> name \<Longrightarrow> cache_of n (set_cache name c S) = cache_of n S"
  by (induction S) (auto simp: cache_of_def set_cache_def)

lemma caches_keys_set_cache: "caches_keys (set_cache name c S) = caches_keys S"
  by (induction S) (auto simp: caches_keys_def set_cache_def)

lemma run_task_stores:
  "put_ok P k r \<Longrightarrow> name \<in> fst ` set (caches w) \<Longrightarrow>
     map_of (cache_of name (caches (run_task P (OpenPut name k r) w))) k = Some r"
  by (simp add: cache_of_set_cache put_entry_map_of)

lemma run_task_other:
  "n \<noteq> name \<Longrightarrow>
     cache_of n (caches (run_task P (OpenPut name k r) w)) = cache_of n (caches w)"
  by (simp add: cache_of_set_cache_other)

lemma caches_match_append_empty: "caches_match k (S @ [(name, [])]) = caches_match k S"
  by (induction S) (auto split: option.splits)

lemma caches_match_caches_open:
  "caches_match k (caches_open name S) = caches_match k S"
  by (simp add: caches_open_def caches_match_append_empty)

lemma caches_match_SomeD:
  "caches_match k S = Some r \<Longrightarrow> \<exists>g \<in> set S. map_of (snd g) k = Some r"
  by (induction S) (auto split: option.splits)

lemma caches_match_unique:
  assumes "g \<in> set S" and "map_of (snd g) k = Some r"
    and "\<forall>g' \<in> set S. g' \<noteq> g \<longrightarrow> map_of (snd g') k = None"
  shows "caches_match k S = Some r"
proof (cases "caches_match k S")
  case None
  with assms(1,2) show ?thesis by (auto simp: caches_match_None_map_of)
next
  case (Some r')
  then obtain g' where "g' \<in> set S" "map_of (snd g') k = Some r'"
    by (blast dest: caches_match_SomeD)
  with assms have "g' = g" by force
  with \<open>map_of (snd g') k = Some r'\<close> assms(2) Some show ?thesis by simp
qed

lemma caches_match_set_cache:
  "\<forall>g \<in> set S. fst g \<noteq> name \<longrightarrow> map_of (snd g) k = None \<Longrightarrow>
   name \<in> fst ` set S \<Longrightarrow> map_of c k = Some r \<Longrightarrow>
   caches_match k (set_cache name c S) = Some r"
  by (induction S) (auto simp: set_cache_def)

lemma caches_match_after_write:
  assumes "\<forall>g \<in> set (caches w). fst g \<noteq> name \<longrightarrow> map_of (snd g) k = None"
    and "put_ok P k r" and "name \<in> fst ` set (caches w)"
  shows "caches_match k (caches (run_task P (OpenPut name k r) w)) = Some r"
  using assms by (simp add: caches_match_set_cache put_entry_map_of)

lemma fetch_handler_network_success:
  assumes "intercepted P req" and "fetch_net P (request_url req) = Some res"
    and "navigation_or_html req \<or> caches_match (request_url req) (caches w) = None"
  shows "fst (fetch_handler P req w) = Respond res"
    and "caches (snd (fetch_handler P req w)) = caches_open CACHE_NAME (caches w)"
    and "pending (snd (fetch_handler P req w)) =
           pending w @ [OpenPut CACHE_NAME (request_url req) res]"
    and "drop (length (trace w)) (trace (snd (fetch_handler P req w))) =
           (if navigation_or_html req
            then [NetFetch (request_url req), CacheOpen CACHE_NAME]
            else [CacheMatch (request_url req), NetFetch (request_url req),
                  CacheOpen CACHE_NAME])"
  using assms by (auto simp: fetch_handler_def network_first_def cache_first_def)

lemma fetch_handler_from_cache:
  assumes "intercepted P req" and "caches_match (request_url req) (caches w) = Some r"
    and "navigation_or_html req \<longrightarrow> fetch_net P (request_url req) = None"
  shows "fst (fetch_handler P req w) = Respond r"
    and "pending (snd (fetch_handler P req w)) = pending w"
  using assms by (auto simp: fetch_handler_def network_first_def cache_first_def)

lemma run_task_pending: "pending (run_task P t w) = pending w"
  by (cases t) simp

lemma put_all_shape:
  "distinct (map fst es) \<Longrightarrow> put_all P es c = Inr c' \<Longrightarrow>
     c' = filter (\<lambda>e. fst e \<notin> fst ` set es) c @ es"
proof (induction es arbitrary: c)
  case Nil
  then show ?case by simp
next
  case (Cons e es)
  from Cons.prems have rest: "put_all P es (put_entry (fst e) (snd e) c) = Inr c'"
    and d: "distinct (map fst es)" and n: "fst e \<notin> fst ` set es"
    by (simp_all split: if_splits)
  from Cons.IH [OF d rest] n show ?case
    by (simp add: put_entry_def conj_commute)
qed

lemma fetch_all_keys: "fetch_all P us = Inr rs \<Longrightarrow> map fst rs = us"
  by (simp add: fetch_all_Inr_iff comp_def)

lemma distinct_ASSETS: "distinct ASSETS"
  by (simp add: ASSETS_def)

lemma cache_addAll_shape:
  assumes "distinct us" and "cache_addAll P us c = Inr c'"
  shows "c' = filter (\<lambda>e. fst e \<notin> set us) c @ map (\<lambda>u. (u, the (fetch_net P u))) us"
proof -
  let ?rs = "map (\<lambda>u. (u, the (fetch_net P u))) us"
  from assms(2) obtain rs where f: "fetch_all P us = Inr rs" and p: "put_all P rs c = Inr c'"
    by (auto simp: cache_addAll_def split: sum.splits)
  from f have rs: "rs = ?rs" by (simp add: fetch_all_Inr_iff)
  have k: "map fst rs = us" using f by (rule fetch_all_keys)
  with assms(1) have "distinct (map fst rs)" by simp
  from put_all_shape [OF this p] have "c' = filter (\<lambda>e. fst e \<notin> fst ` set rs) c @ rs" .
  moreover have "fst ` set rs = set us" using k by (metis set_map)
  ultimately show ?thesis using rs by simp
qed

lemma install_shape:
  assumes "install P w = (Inr u, w')"
  shows "caches w' =
           set_cache CACHE_NAME
             (filter (\<lambda>e. fst e \<notin> set ASSETS) (cache_of CACHE_NAME (caches w)) @
              map (\<lambda>a. (a, the (fetch_net P a))) ASSETS)
             (caches_open CACHE_NAME (caches w))"
proof -
  let ?S1 = "caches_open CACHE_NAME (caches w)"
  from assms obtain c where c: "cache_addAll P ASSETS (cache_of CACHE_NAME ?S1) = Inr c"
    and w': "caches w' = set_cache CACHE_NAME c ?S1"
    by (auto simp: install_def Let_def split: sum.splits)
  from cache_addAll_shape [OF distinct_ASSETS c] w' show ?thesis
    by (simp add: cache_of_caches_open)
qed

lemma install_cache_of:
  assumes "install P w = (Inr u, w')"
  shows "cache_of CACHE_NAME (caches w') =
           filter (\<lambda>e. fst e \<notin> set ASSETS) (cache_of CACHE_NAME (caches w)) @
           map (\<lambda>a. (a, the (fetch_net P a))) ASSETS"
  unfolding install_shape [OF assms]
  by (rule cache_of_set_cache) (rule caches_open_mem)

lemma caches_open_present: "name \<in> fst ` set S \<Longrightarrow> caches_open name S = S"
  by (simp add: caches_open_def)

lemma set_cache_names: "fst ` set (set_cache name c S) = fst ` set S"
  by (induction S) (auto simp: set_cache_def)

lemma set_cache_twice: "set_cache name c2 (set_cache name c1 S) = set_cache name c2 S"
  by (induction S) (auto simp: set_cache_def)

lemma install_twice_caches:
  assumes 1: "install P w = (Inr u, w1)" and 2: "install P' w1 = (Inr u', w2)"
  shows "caches w2 =
           set_cache CACHE_NAME
             (filter (\<lambda>e. fst e \<notin> set ASSETS) (cache_of CACHE_NAME (caches w)) @
              map (\<lambda>a. (a, the (fetch_net P' a))) ASSETS)
             (caches_open CACHE_NAME (caches w))"
proof -
  have m: "CACHE_NAME \<in> fst ` set (caches w1)"
    unfolding install_shape [OF 1] set_cache_names by (rule caches_open_mem)
  have f: "filter (\<lambda>e. fst e \<notin> set ASSETS) (cache_of CACHE_NAME (caches w1)) =
           filter (\<lambda>e. fst e \<notin> set ASSETS) (cache_of CACHE_NAME (caches w))"
    unfolding install_cache_of [OF 1] by (simp add: filter_empty_conv)
  show ?thesis
    unfolding install_shape [OF 2] f caches_open_present [OF m]
    unfolding install_shape [OF 1] set_cache_twice ..
qed

lemma count_distinct: "distinct xs \<Longrightarrow> a \<in> set xs \<Longrightarrow> length (filter (\<lambda>k. k = a) xs) = 1"
  by (induction xs) (auto simp: filter_empty_conv)

lemma install_twice_keys:
  assumes 1: "install P w = (Inr u, w1)" and 2: "install P' w1 = (Inr u', w2)"
  shows "cache_keys CACHE_NAME (caches w1) =
           map fst (filter (\<lambda>e. fst e \<notin> set ASSETS) (cache_of CACHE_NAME (caches w))) @ ASSETS"
    and "cache_keys CACHE_NAME (caches w2) = cache_keys CACHE_NAME (caches w1)"
proof -
  show k1: "cache_keys CACHE_NAME (caches w1) =
           map fst (filter (\<lambda>e. fst e \<notin> set ASSETS) (cache_of CACHE_NAME (caches w))) @ ASSETS"
    by (simp add: cache_keys_def install_cache_of [OF 1] comp_def)
  have "cache_keys CACHE_NAME (caches w2) =
          map fst (filter (\<lambda>e. fst e \<notin> set ASSETS) (cache_of CACHE_NAME (caches w1))) @ ASSETS"
    by (simp add: cache_keys_def install_cache_of [OF 2] comp_def)
  also have "filter (\<lambda>e. fst e \<notin> set ASSETS) (cache_of CACHE_NAME (caches w1)) =
             filter (\<lambda>e. fst e \<notin> set ASSETS) (cache_of CACHE_NAME (caches w))"
    unfolding install_cache_of [OF 1] by (simp add: filter_empty_conv)
  finally show "cache_keys CACHE_NAME (caches w2) = cache_keys CACHE_NAME (caches w1)"
    by (simp add: k1)
qed

subsection \<open>Install\<close>

text \<open>
  C1. Install is all-or-nothing. When install succeeds, each of the six keys of the asset
  manifest is a key of the generation \<^verbatim>\<open>checkmate-gp-v1\<close>; and when a manifest
  asset cannot be fetched (the fetch rejects, or \<^verbatim>\<open>addAll\<close> finds its response not
  ok) or cannot be stored, install fails.
\<close>

theorem install_all_or_nothing:
  "(install P w = (Inr u, w') \<longrightarrow>
      {''./'', ''./index.html'', ''./manifest.json'', ''./icons/icon-192.png'',
       ''./icons/icon-512.png'', ''./icons/apple-touch-icon.png''}
        \<subseteq> set (cache_keys ''checkmate-gp-v1'' (caches w'))) \<and>
   (a \<in> set ASSETS \<and>
      (fetch_net P a = None \<or>
       (\<exists>r. fetch_net P a = Some r \<and> (\<not> response_ok r \<or> \<not> put_ok P a r))) \<longrightarrow>
      (\<exists>e. fst (install P w) = Inl e))"
proof (intro conjI impI)
  assume "install P w = (Inr u, w')"
  from install_keys [OF this]
  have "set ASSETS \<subseteq> set (cache_keys CACHE_NAME (caches w'))" by simp
  then show "{''./'', ''./index.html'', ''./manifest.json'', ''./icons/icon-192.png'',
       ''./icons/icon-512.png'', ''./icons/apple-touch-icon.png''}
        \<subseteq> set (cache_keys ''checkmate-gp-v1'' (caches w'))"
    by (simp add: ASSETS_def CACHE_NAME_def)
next
  assume a: "a \<in> set ASSETS \<and>
      (fetch_net P a = None \<or>
       (\<exists>r. fetch_net P a = Some r \<and> (\<not> response_ok r \<or> \<not> put_ok P a r)))"
  then have "\<not> (\<exists>r. fetch_net P a = Some r \<and> response_ok r \<and> put_ok P a r)"
    by auto
  with a have "\<not> (\<forall>a \<in> set ASSETS. \<exists>r. fetch_net P a = Some r \<and> response_ok r \<and> put_ok P a r)"
    by blast
  then have "\<not> (\<exists>w'. install P w = (Inr (), w'))"
    using install_succeeds_iff [of P w] by blast
  then show "\<exists>e. fst (install P w) = Inl e"
    by (cases "install P w"; cases "fst (install P w)") auto
qed

theorem install_all_or_nothing_witness:
  "fst (install host_up world0) = Inr () \<and>
   {''./'', ''./index.html'', ''./manifest.json'', ''./icons/icon-192.png'',
    ''./icons/icon-512.png'', ''./icons/apple-touch-icon.png''}
      \<subseteq> set (cache_keys ''checkmate-gp-v1'' (caches (snd (install host_up world0)))) \<and>
   ''./manifest.json'' \<in> set ASSETS \<and>
   fetch_net host_partial ''./manifest.json'' = None \<and>
   fst (install host_partial world0) = Inl FetchRejected \<and>
   ''./'' \<in> set ASSETS \<and>
   fetch_net host_404 ''./'' = Some not_found \<and>
   fst (install host_404 world0) = Inl BadStatus \<and>
   ''./icons/icon-512.png'' \<in> set ASSETS \<and>
   fetch_net host_full ''./icons/icon-512.png'' = Some (ok_response ''./icons/icon-512.png'') \<and>
   fst (install host_full world0) = Inl PutRejected"
proof -
  have up: "fst (install host_up world0) = Inr ()"
    by (simp add: install_eval host_up_def world0_def ok_response_def)
  then have e: "install host_up world0 = (Inr (), snd (install host_up world0))"
    by (simp add: prod_eq_iff)
  have m: "''./manifest.json'' \<in> set ASSETS" by (simp add: ASSETS_def)
  have n: "fetch_net host_partial ''./manifest.json'' = None" by (simp add: host_partial_def)
  have d: "fst (install host_partial world0) = Inl FetchRejected"
    by (simp add: install_eval host_partial_def world0_def ok_response_def)
  from install_all_or_nothing [of host_up world0 "()" "snd (install host_up world0)"] e
  have "{''./'', ''./index.html'', ''./manifest.json'', ''./icons/icon-192.png'',
    ''./icons/icon-512.png'', ''./icons/apple-touch-icon.png''}
      \<subseteq> set (cache_keys ''checkmate-gp-v1'' (caches (snd (install host_up world0))))"
    by blast
  moreover have m4: "''./'' \<in> set ASSETS"
    and m5: "''./icons/icon-512.png'' \<in> set ASSETS"
    by (simp_all add: ASSETS_def)
  moreover have f4: "fetch_net host_404 ''./'' = Some not_found"
    and b4: "\<not> response_ok not_found"
    by (simp_all add: host_404_def not_found_def response_ok_def)
  moreover have f5: "fetch_net host_full ''./icons/icon-512.png''
                      = Some (ok_response ''./icons/icon-512.png'')"
    and b5: "\<not> put_ok host_full ''./icons/icon-512.png'' (ok_response ''./icons/icon-512.png'')"
    by (simp_all add: host_full_def)
  moreover from install_all_or_nothing [of host_404 world0 _ _ "''./''"] m4 f4 b4
  obtain e4 where "fst (install host_404 world0) = Inl e4" by blast
  then have "fst (install host_404 world0) = Inl BadStatus"
    by (simp add: install_eval host_404_def world0_def not_found_def)
  moreover from install_all_or_nothing [of host_full world0 _ _ "''./icons/icon-512.png''"] m5 f5 b5
  obtain e5 where "fst (install host_full world0) = Inl e5" by blast
  then have "fst (install host_full world0) = Inl PutRejected"
    by (simp add: install_eval host_full_def world0_def ok_response_def)
  ultimately show ?thesis using up m n d by blast
qed

text \<open>
  C8. Install is idempotent on the keys. After a successful install, a second install
  against the same network succeeds and leaves the whole cache storage as the first one
  left it (every entry overwritten by an equal one). Against any network, a second
  successful install leaves the key list of \<^verbatim>\<open>checkmate-gp-v1\<close> and the list of
  generations as they were, and each manifest key occurs exactly once.
\<close>

theorem install_idempotent:
  "(install P w = (Inr u, w1) \<longrightarrow>
      fst (install P w1) = Inr () \<and> caches (snd (install P w1)) = caches w1) \<and>
   (install P w = (Inr u, w1) \<and> install P' w1 = (Inr u', w2) \<longrightarrow>
      cache_keys CACHE_NAME (caches w2) = cache_keys CACHE_NAME (caches w1) \<and>
      caches_keys (caches w2) = caches_keys (caches w1) \<and>
      (\<forall>a \<in> set ASSETS.
          length (filter (\<lambda>k. k = a) (cache_keys CACHE_NAME (caches w2))) = 1))"
proof (intro conjI impI)
  assume 1: "install P w = (Inr u, w1)"
  then have "\<exists>w'. install P w = (Inr (), w')" by simp
  then have "\<exists>w'. install P w1 = (Inr (), w')"
    by (simp only: install_succeeds_iff)
  then obtain w2 where 2: "install P w1 = (Inr (), w2)" by blast
  then show "fst (install P w1) = Inr ()" by simp
  from install_twice_caches [OF 1 2] install_shape [OF 1] 2
  show "caches (snd (install P w1)) = caches w1" by simp
next
  assume a: "install P w = (Inr u, w1) \<and> install P' w1 = (Inr u', w2)"
  then have 1: "install P w = (Inr u, w1)" and 2: "install P' w1 = (Inr u', w2)" by simp_all
  show k: "cache_keys CACHE_NAME (caches w2) = cache_keys CACHE_NAME (caches w1)"
    using 1 2 by (rule install_twice_keys(2))
  show "caches_keys (caches w2) = caches_keys (caches w1)"
    by (simp add: install_twice_caches [OF 1 2] install_shape [OF 1] caches_keys_set_cache)
  show "\<forall>a \<in> set ASSETS.
          length (filter (\<lambda>k. k = a) (cache_keys CACHE_NAME (caches w2))) = 1"
  proof
    fix a assume m: "a \<in> set ASSETS"
    then have "filter (\<lambda>k. k = a)
        (map fst (filter (\<lambda>e. fst e \<notin> set ASSETS) (cache_of CACHE_NAME (caches w)))) = []"
      by (auto simp: filter_empty_conv)
    with count_distinct [OF distinct_ASSETS m]
    show "length (filter (\<lambda>k. k = a) (cache_keys CACHE_NAME (caches w2))) = 1"
      by (simp add: k install_twice_keys(1) [OF 1 2])
  qed
qed

theorem install_idempotent_witness:
  "fst (install host_up world0) = Inr () \<and>
   fst (install host_up (snd (install host_up world0))) = Inr () \<and>
   caches (snd (install host_up (snd (install host_up world0))))
     = caches (snd (install host_up world0)) \<and>
   cache_keys CACHE_NAME (caches (snd (install host_up (snd (install host_up world0)))))
     = [''./'', ''./index.html'', ''./manifest.json'', ''./icons/icon-192.png'',
        ''./icons/icon-512.png'', ''./icons/apple-touch-icon.png''] \<and>
   caches_keys (caches (snd (install host_up (snd (install host_up world0)))))
     = [''checkmate-gp-v1''] \<and>
   ''./index.html'' \<in> set ASSETS \<and>
   length (filter (\<lambda>k. k = ''./index.html'')
     (cache_keys CACHE_NAME (caches (snd (install host_up (snd (install host_up world0))))))) = 1"
proof -
  let ?w1 = "snd (install host_up world0)"
  let ?w2 = "snd (install host_up ?w1)"
  have up: "fst (install host_up world0) = Inr ()"
    and k1: "cache_keys CACHE_NAME (caches ?w1) =
      [''./'', ''./index.html'', ''./manifest.json'', ''./icons/icon-192.png'',
        ''./icons/icon-512.png'', ''./icons/apple-touch-icon.png'']"
    and n1: "caches_keys (caches ?w1) = [''checkmate-gp-v1'']"
    by (simp_all add: install_eval caches_keys_def host_up_def world0_def ok_response_def)
  from up have 1: "install host_up world0 = (Inr (), ?w1)" by (simp add: prod_eq_iff)
  have m: "''./index.html'' \<in> set ASSETS" by (simp add: ASSETS_def)
  note t = install_idempotent [of host_up world0 "()" ?w1 host_up "()" ?w2]
  from t 1 have s2: "fst (install host_up ?w1) = Inr ()"
    and c2: "caches ?w2 = caches ?w1" by blast+
  from s2 have 2: "install host_up ?w1 = (Inr (), ?w2)" by (simp add: prod_eq_iff)
  from t 1 2 have "cache_keys CACHE_NAME (caches ?w2) = cache_keys CACHE_NAME (caches ?w1)"
    and "caches_keys (caches ?w2) = caches_keys (caches ?w1)"
    and "\<forall>a \<in> set ASSETS. length (filter (\<lambda>k. k = a) (cache_keys CACHE_NAME (caches ?w2))) = 1"
    by blast+
  with up s2 c2 k1 n1 m show ?thesis by simp
qed

subsection \<open>Activate\<close>

text \<open>
  C3. Activate deletes exactly the stale generations. A generation that existed before
  is gone afterwards if and only if its name is not \<^verbatim>\<open>checkmate-gp-v1\<close>; the entries
  of the current generation are untouched; and from the generations \<open>v0\<close> and
  \<^verbatim>\<open>checkmate-gp-v1\<close> only the latter remains.
\<close>

theorem activate_deletes_stale:
  "(n \<in> set (caches_keys (caches w)) \<longrightarrow>
      (n \<notin> set (caches_keys (caches (activate w))) \<longleftrightarrow> n \<noteq> ''checkmate-gp-v1'')) \<and>
   cache_of CACHE_NAME (caches (activate w)) = cache_of CACHE_NAME (caches w) \<and>
   (v0 \<noteq> ''checkmate-gp-v1'' \<and> set (caches_keys (caches w)) = {v0, ''checkmate-gp-v1''} \<longrightarrow>
      set (caches_keys (caches (activate w))) = {''checkmate-gp-v1''})"
proof (intro conjI impI)
  assume "n \<in> set (caches_keys (caches w))"
  then show "n \<notin> set (caches_keys (caches (activate w))) \<longleftrightarrow> n \<noteq> ''checkmate-gp-v1''"
    by (simp add: activate_keys CACHE_NAME_def)
next
  show "cache_of CACHE_NAME (caches (activate w)) = cache_of CACHE_NAME (caches w)"
    by (simp add: caches_activate cache_of_def map_of_filter_name)
next
  assume "v0 \<noteq> ''checkmate-gp-v1'' \<and> set (caches_keys (caches w)) = {v0, ''checkmate-gp-v1''}"
  then show "set (caches_keys (caches (activate w))) = {''checkmate-gp-v1''}"
    by (simp add: activate_keys CACHE_NAME_def)
qed

theorem activate_deletes_stale_witness:
  "''checkmate-gp-v0'' \<in> set (caches_keys (caches world_stale)) \<and>
   ''checkmate-gp-v0'' \<notin> set (caches_keys (caches (activate world_stale))) \<and>
   ''checkmate-gp-v1'' \<in> set (caches_keys (caches world_stale)) \<and>
   ''checkmate-gp-v1'' \<in> set (caches_keys (caches (activate world_stale))) \<and>
   ''checkmate-gp-v0'' \<noteq> ''checkmate-gp-v1'' \<and>
   set (caches_keys (caches world_stale)) = {''checkmate-gp-v0'', ''checkmate-gp-v1''} \<and>
   set (caches_keys (caches (activate world_stale))) = {''checkmate-gp-v1''}"
proof -
  have k: "caches_keys (caches world_stale) = [''checkmate-gp-v0'', ''checkmate-gp-v1'']"
    by (simp add: world_stale_def caches_keys_def)
  have m0: "''checkmate-gp-v0'' \<in> set (caches_keys (caches world_stale))"
    and m1: "''checkmate-gp-v1'' \<in> set (caches_keys (caches world_stale))"
    and s: "set (caches_keys (caches world_stale)) = {''checkmate-gp-v0'', ''checkmate-gp-v1''}"
    by (simp_all add: k)
  have d: "''checkmate-gp-v0'' \<noteq> ''checkmate-gp-v1''" by simp
  note a0 = activate_deletes_stale [of "''checkmate-gp-v0''" world_stale "''checkmate-gp-v0''"]
  note a1 = activate_deletes_stale [of "''checkmate-gp-v1''" world_stale "''checkmate-gp-v0''"]
  from a0 m0 d have "''checkmate-gp-v0'' \<notin> set (caches_keys (caches (activate world_stale)))"
    by blast
  moreover from a1 m1 have "''checkmate-gp-v1'' \<in> set (caches_keys (caches (activate world_stale)))"
    by blast
  moreover from a0 d s have "set (caches_keys (caches (activate world_stale))) = {''checkmate-gp-v1''}"
    by blast
  ultimately show ?thesis using m0 m1 d s by blast
qed

subsection \<open>Fetch: the requests left alone\<close>

text \<open>
  C4. A request whose method is not GET, or whose origin is not the worker's own, is not
  intercepted: the handler ends without \<^verbatim>\<open>respondWith\<close> and the world is what it was,
  so no primitive was called (the trace is unchanged), no cache entry was read or
  written, and no write was left behind.
\<close>

theorem bypass_no_interception:
  "request_method req \<noteq> ''GET'' \<or> url_origin req \<noteq> location_origin P \<longrightarrow>
     fetch_handler P req w = (PassThrough, w)"
  by (simp add: fetch_handler_def)

theorem bypass_no_interception_witness:
  "request_method req_post \<noteq> ''GET'' \<and>
   fetch_handler host_up req_post world_cached = (PassThrough, world_cached) \<and>
   url_origin req_api \<noteq> location_origin host_up \<and>
   fetch_handler host_up req_api world_cached = (PassThrough, world_cached)"
proof -
  have m: "request_method req_post \<noteq> ''GET''" by (simp add: req_post_def)
  have o: "url_origin req_api \<noteq> location_origin host_up" by (simp add: req_api_def host_up_def)
  from m bypass_no_interception [of req_post host_up world_cached]
  have "fetch_handler host_up req_post world_cached = (PassThrough, world_cached)" by blast
  moreover from o bypass_no_interception [of req_api host_up world_cached]
  have "fetch_handler host_up req_api world_cached = (PassThrough, world_cached)" by blast
  ultimately show ?thesis using m o by blast
qed

subsection \<open>Fetch: the two classes\<close>

text \<open>
  C5. A same-origin GET request is handled by exactly one of the two strategies. It is
  handled network-first (the first primitive called is \<^verbatim>\<open>fetch\<close>) if and only if
  its mode is \<^verbatim>\<open>navigate\<close> or its path ends with \<^verbatim>\<open>.html\<close>, and cache-first (the
  first primitive called is \<^verbatim>\<open>caches.match\<close>) otherwise.
\<close>

theorem fetch_classification:
  "request_method req = ''GET'' \<and> url_origin req = location_origin P \<longrightarrow>
     fetch_handler P req w =
       (if request_mode req = ''navigate'' \<or> endsWith (url_pathname req) ''.html''
        then network_first P req w else cache_first P req w) \<and>
     (first_call w (snd (fetch_handler P req w)) = Some (NetFetch (request_url req)) \<longleftrightarrow>
        request_mode req = ''navigate'' \<or> endsWith (url_pathname req) ''.html'') \<and>
     (first_call w (snd (fetch_handler P req w)) = Some (CacheMatch (request_url req)) \<longleftrightarrow>
        \<not> (request_mode req = ''navigate'' \<or> endsWith (url_pathname req) ''.html''))"
  by (auto simp: fetch_handler_def network_first_def cache_first_def first_call_append
        split: option.splits)

theorem fetch_classification_witness:
  "request_method req_page = ''GET'' \<and> url_origin req_page = location_origin host_up \<and>
   first_call world0 (snd (fetch_handler host_up req_page world0))
     = Some (NetFetch ''https://checkmate.example/'') \<and>
   request_method req_html = ''GET'' \<and> url_origin req_html = location_origin host_up \<and>
   first_call world0 (snd (fetch_handler host_up req_html world0))
     = Some (NetFetch ''https://checkmate.example/index.html'') \<and>
   request_method req_icon = ''GET'' \<and> url_origin req_icon = location_origin host_up \<and>
   first_call world0 (snd (fetch_handler host_up req_icon world0))
     = Some (CacheMatch ''https://checkmate.example/icons/icon-192.png'')"
proof -
  have p: "request_method req_page = ''GET'' \<and> url_origin req_page = location_origin host_up"
    and h: "request_method req_html = ''GET'' \<and> url_origin req_html = location_origin host_up"
    and i: "request_method req_icon = ''GET'' \<and> url_origin req_icon = location_origin host_up"
    by (simp_all add: request_eval host_up_def)
  have cp: "request_mode req_page = ''navigate'' \<or> endsWith (url_pathname req_page) ''.html''"
    and ch: "request_mode req_html = ''navigate'' \<or> endsWith (url_pathname req_html) ''.html''"
    and ci: "\<not> (request_mode req_icon = ''navigate'' \<or> endsWith (url_pathname req_icon) ''.html'')"
    by (simp_all add: request_eval)
  have up: "request_url req_page = ''https://checkmate.example/''"
    and uh: "request_url req_html = ''https://checkmate.example/index.html''"
    and ui: "request_url req_icon = ''https://checkmate.example/icons/icon-192.png''"
    by (simp_all add: request_eval)
  from fetch_classification [of req_page host_up world0] p cp
  have "first_call world0 (snd (fetch_handler host_up req_page world0))
          = Some (NetFetch ''https://checkmate.example/'')"
    unfolding up by blast
  moreover from fetch_classification [of req_html host_up world0] h ch
  have "first_call world0 (snd (fetch_handler host_up req_html world0))
          = Some (NetFetch ''https://checkmate.example/index.html'')"
    unfolding uh by blast
  moreover from fetch_classification [of req_icon host_up world0] i ci
  have "first_call world0 (snd (fetch_handler host_up req_icon world0))
          = Some (CacheMatch ''https://checkmate.example/icons/icon-192.png'')"
    unfolding ui by blast
  ultimately show ?thesis using p h i by blast
qed

subsection \<open>Fetch: no network and no entry\<close>

text \<open>
  C2. With the network down and no generation holding an entry for the request's key, a
  same-origin GET request ends in a failure and never in a response. In the
  navigation/HTML class the promise handed to \<^verbatim>\<open>respondWith\<close> resolves with
  \<^verbatim>\<open>undefined\<close> (the result of \<^verbatim>\<open>caches.match\<close>); in the static class it rejects
  with the failure of \<^verbatim>\<open>fetch\<close>. Either way the page receives a network error.
  Nothing is written and nothing is left behind.
\<close>

theorem unavailable_failure_propagates:
  "request_method req = ''GET'' \<and> url_origin req = location_origin P \<and>
   fetch_net P (request_url req) = None \<and>
   (\<forall>g \<in> set (caches w). request_url req \<notin> fst ` set (snd g)) \<longrightarrow>
     fst (fetch_handler P req w) =
       (if request_mode req = ''navigate'' \<or> endsWith (url_pathname req) ''.html''
        then RespondUndefined else RespondRejected FetchRejected) \<and>
     (\<forall>r. fst (fetch_handler P req w) \<noteq> Respond r) \<and>
     page_receives (fst (fetch_handler P req w)) = NetworkError \<and>
     caches (snd (fetch_handler P req w)) = caches w \<and>
     pending (snd (fetch_handler P req w)) = pending w"
proof (intro impI)
  assume a: "request_method req = ''GET'' \<and> url_origin req = location_origin P \<and>
   fetch_net P (request_url req) = None \<and>
   (\<forall>g \<in> set (caches w). request_url req \<notin> fst ` set (snd g))"
  then have m: "caches_match (request_url req) (caches w) = None"
    by (simp add: caches_match_None_iff)
  from a m show "fst (fetch_handler P req w) =
       (if request_mode req = ''navigate'' \<or> endsWith (url_pathname req) ''.html''
        then RespondUndefined else RespondRejected FetchRejected) \<and>
     (\<forall>r. fst (fetch_handler P req w) \<noteq> Respond r) \<and>
     page_receives (fst (fetch_handler P req w)) = NetworkError \<and>
     caches (snd (fetch_handler P req w)) = caches w \<and>
     pending (snd (fetch_handler P req w)) = pending w"
    by (simp add: fetch_handler_def network_first_def cache_first_def)
qed

theorem unavailable_failure_propagates_witness:
  "request_method req_page = ''GET'' \<and> url_origin req_page = location_origin host_down \<and>
   fetch_net host_down (request_url req_page) = None \<and>
   fst (fetch_handler host_down req_page world_cached) = RespondUndefined \<and>
   request_method req_html = ''GET'' \<and> url_origin req_html = location_origin host_down \<and>
   fetch_net host_down (request_url req_html) = None \<and>
   fst (fetch_handler host_down req_html world0) = RespondUndefined \<and>
   request_method req_icon = ''GET'' \<and> url_origin req_icon = location_origin host_down \<and>
   fetch_net host_down (request_url req_icon) = None \<and>
   fst (fetch_handler host_down req_icon world0) = RespondRejected FetchRejected \<and>
   page_receives (fst (fetch_handler host_down req_page world_cached)) = NetworkError \<and>
   page_receives (fst (fetch_handler host_down req_icon world0)) = NetworkError"
proof -
  have p: "request_method req_page = ''GET'' \<and> url_origin req_page = location_origin host_down \<and>
           fetch_net host_down (request_url req_page) = None"
    and h: "request_method req_html = ''GET'' \<and> url_origin req_html = location_origin host_down \<and>
           fetch_net host_down (request_url req_html) = None"
    and i: "request_method req_icon = ''GET'' \<and> url_origin req_icon = location_origin host_down \<and>
           fetch_net host_down (request_url req_icon) = None"
    by (simp_all add: request_eval host_down_def)
  have np: "\<forall>g \<in> set (caches world_cached). request_url req_page \<notin> fst ` set (snd g)"
    by (simp add: world_cached_def request_eval)
  have n0: "\<forall>g \<in> set (caches world0). k \<notin> fst ` set (snd g)" for k
    by (simp add: world0_def)
  have cp: "request_mode req_page = ''navigate'' \<or> endsWith (url_pathname req_page) ''.html''"
    and ch: "request_mode req_html = ''navigate'' \<or> endsWith (url_pathname req_html) ''.html''"
    and ci: "\<not> (request_mode req_icon = ''navigate'' \<or> endsWith (url_pathname req_icon) ''.html'')"
    by (simp_all add: request_eval)
  from unavailable_failure_propagates [of req_page host_down world_cached] p np cp
  have "fst (fetch_handler host_down req_page world_cached) = RespondUndefined"
    by simp
  moreover from unavailable_failure_propagates [of req_html host_down world0] h n0 ch
  have "fst (fetch_handler host_down req_html world0) = RespondUndefined"
    by simp
  moreover from unavailable_failure_propagates [of req_icon host_down world0] i n0 ci
  have "fst (fetch_handler host_down req_icon world0) = RespondRejected FetchRejected"
    by simp
  moreover from unavailable_failure_propagates [of req_page host_down world_cached] p np
  have "page_receives (fst (fetch_handler host_down req_page world_cached)) = NetworkError"
    by blast
  moreover from unavailable_failure_propagates [of req_icon host_down world0] i n0
  have "page_receives (fst (fetch_handler host_down req_icon world0)) = NetworkError"
    by blast
  ultimately show ?thesis using p h i by blast
qed

subsection \<open>Fetch: a hit in the static class\<close>

text \<open>
  C6. In the static class, when the lookup finds an entry, the handler responds with that
  entry and the only primitive it calls is \<^verbatim>\<open>caches.match\<close>: no network call, no
  write, nothing left behind. The same request against the same store gives the same
  entry again, whatever the network does in the meantime.
\<close>

theorem cache_first_hit:
  "request_method req = ''GET'' \<and> url_origin req = location_origin P \<and>
   \<not> (request_mode req = ''navigate'' \<or> endsWith (url_pathname req) ''.html'') \<and>
   caches_match (request_url req) (caches w) = Some cached \<longrightarrow>
     fetch_handler P req w =
       (Respond cached, w\<lparr>trace := trace w @ [CacheMatch (request_url req)]\<rparr>) \<and>
     (\<forall>u. NetFetch u \<notin> set (drop (length (trace w)) (trace (snd (fetch_handler P req w))))) \<and>
     fst (fetch_handler P req (snd (fetch_handler P req w))) = Respond cached \<and>
     (\<forall>P' w'. location_origin P' = location_origin P \<and> caches w' = caches w \<longrightarrow>
        fst (fetch_handler P' req w') = Respond cached \<and>
        caches (snd (fetch_handler P' req w')) = caches w)"
  by (simp add: fetch_handler_def cache_first_def)

theorem cache_first_hit_witness:
  "request_method req_icon = ''GET'' \<and> url_origin req_icon = location_origin host_down \<and>
   caches_match (request_url req_icon) (caches world_cached)
     = Some (ok_response ''https://checkmate.example/icons/icon-192.png'') \<and>
   fetch_handler host_down req_icon world_cached =
     (Respond (ok_response ''https://checkmate.example/icons/icon-192.png''),
      world_cached\<lparr>trace := [CacheMatch ''https://checkmate.example/icons/icon-192.png'']\<rparr>) \<and>
   fst (fetch_handler host_down req_icon (snd (fetch_handler host_down req_icon world_cached)))
     = Respond (ok_response ''https://checkmate.example/icons/icon-192.png'') \<and>
   fst (fetch_handler host_up req_icon world_cached)
     = Respond (ok_response ''https://checkmate.example/icons/icon-192.png'')"
proof -
  let ?r = "ok_response ''https://checkmate.example/icons/icon-192.png''"
  have i: "request_method req_icon = ''GET'' \<and> url_origin req_icon = location_origin host_down"
    by (simp add: request_eval host_down_def)
  have ci: "\<not> (request_mode req_icon = ''navigate'' \<or> endsWith (url_pathname req_icon) ''.html'')"
    by (simp add: request_eval)
  have ui: "request_url req_icon = ''https://checkmate.example/icons/icon-192.png''"
    by (simp add: request_eval)
  have m: "caches_match (request_url req_icon) (caches world_cached) = Some ?r"
    by (simp add: ui world_cached_def)
  have t: "trace world_cached = []" by (simp add: world_cached_def)
  have o: "location_origin host_up = location_origin host_down"
    by (simp add: host_up_def host_down_def)
  note h = cache_first_hit [of req_icon host_down world_cached ?r]
  from h i ci m have "fetch_handler host_down req_icon world_cached =
     (Respond ?r, world_cached\<lparr>trace := [CacheMatch ''https://checkmate.example/icons/icon-192.png'']\<rparr>)"
    by (simp add: ui t)
  moreover from h i ci m
  have "fst (fetch_handler host_down req_icon (snd (fetch_handler host_down req_icon world_cached)))
     = Respond ?r" by blast
  moreover from h i ci m o have "fst (fetch_handler host_up req_icon world_cached) = Respond ?r"
    by blast
  ultimately show ?thesis using i m by blast
qed

subsection \<open>Fetch: the response does not wait for the write\<close>

text \<open>
  C7. When the network fetch of an intercepted request resolves (in the navigation/HTML
  class always, in the static class after a miss), the handler responds with the live
  response before the clone is written: it has called \<^verbatim>\<open>caches.open\<close>, which at
  most creates the current generation, empty; no entry of any generation has changed,
  no lookup answers differently, no \<^verbatim>\<open>cache.put\<close> has been called, and the write is
  only left behind as a pending task. A static request for the same key handled before
  that task runs misses again and goes to the network; once the task has run, the entry
  is in the current generation.
\<close>

theorem response_not_awaiting_write:
  "intercepted P req \<and> fetch_net P (request_url req) = Some res \<and>
   (navigation_or_html req \<or> caches_match (request_url req) (caches w) = None) \<longrightarrow>
     fst (fetch_handler P req w) = Respond res \<and>
     caches (snd (fetch_handler P req w)) = caches_open CACHE_NAME (caches w) \<and>
     (\<forall>n. cache_of n (caches (snd (fetch_handler P req w))) = cache_of n (caches w)) \<and>
     (\<forall>k. caches_match k (caches (snd (fetch_handler P req w))) = caches_match k (caches w)) \<and>
     pending (snd (fetch_handler P req w)) =
       pending w @ [OpenPut CACHE_NAME (request_url req) res] \<and>
     drop (length (trace w)) (trace (snd (fetch_handler P req w))) =
       (if navigation_or_html req
        then [NetFetch (request_url req), CacheOpen CACHE_NAME]
        else [CacheMatch (request_url req), NetFetch (request_url req), CacheOpen CACHE_NAME]) \<and>
     (\<forall>n u. CachePut n u \<notin> set (drop (length (trace w)) (trace (snd (fetch_handler P req w))))) \<and>
     (\<not> navigation_or_html req \<longrightarrow>
        fst (fetch_handler P req (snd (fetch_handler P req w))) = Respond res \<and>
        drop (length (trace (snd (fetch_handler P req w))))
          (trace (snd (fetch_handler P req (snd (fetch_handler P req w))))) =
            [CacheMatch (request_url req), NetFetch (request_url req), CacheOpen CACHE_NAME]) \<and>
     (pending w = [] \<and> put_ok P (request_url req) res \<longrightarrow>
        pending (run_pending P (snd (fetch_handler P req w))) = [] \<and>
        map_of (cache_of CACHE_NAME (caches (run_pending P (snd (fetch_handler P req w)))))
          (request_url req) = Some res)"
proof (intro impI)
  let ?w' = "snd (fetch_handler P req w)"
  let ?k = "request_url req"
  assume a: "intercepted P req \<and> fetch_net P ?k = Some res \<and>
   (navigation_or_html req \<or> caches_match ?k (caches w) = None)"
  note s = fetch_handler_network_success [of req P res w]
  from a have 1: "fst (fetch_handler P req w) = Respond res"
    and 2: "caches ?w' = caches_open CACHE_NAME (caches w)"
    and 3: "pending ?w' = pending w @ [OpenPut CACHE_NAME ?k res]"
    and 4: "drop (length (trace w)) (trace ?w') =
           (if navigation_or_html req then [NetFetch ?k, CacheOpen CACHE_NAME]
            else [CacheMatch ?k, NetFetch ?k, CacheOpen CACHE_NAME])"
    by (simp_all add: s)
  have 8: "\<forall>n. cache_of n (caches ?w') = cache_of n (caches w)"
    by (simp add: 2 cache_of_caches_open)
  have 9: "\<forall>k. caches_match k (caches ?w') = caches_match k (caches w)"
    by (simp add: 2 caches_match_caches_open)
  from 4 have 5: "\<forall>n u. CachePut n u \<notin> set (drop (length (trace w)) (trace ?w'))"
    by simp
  have 6: "fst (fetch_handler P req ?w') = Respond res \<and>
           drop (length (trace ?w')) (trace (snd (fetch_handler P req ?w'))) =
            [CacheMatch ?k, NetFetch ?k, CacheOpen CACHE_NAME]"
    if "\<not> navigation_or_html req"
  proof -
    from a that have "caches_match ?k (caches ?w') = None" by (simp add: 9)
    with a that fetch_handler_network_success(1,4) [of req P res ?w'] show ?thesis by simp
  qed
  have 7: "pending (run_pending P ?w') = [] \<and>
        map_of (cache_of CACHE_NAME (caches (run_pending P ?w'))) ?k = Some res"
    if "pending w = [] \<and> put_ok P ?k res"
  proof -
    from that 3 have r: "run_pending P ?w' = run_task P (OpenPut CACHE_NAME ?k res) (?w'\<lparr>pending := []\<rparr>)"
      by (simp add: run_pending_def)
    have "CACHE_NAME \<in> fst ` set (caches (?w'\<lparr>pending := []\<rparr>))"
      by (simp add: 2 caches_open_mem)
    with that show ?thesis unfolding r
      by (simp add: run_task_stores run_task_pending del: run_task.simps)
  qed
  from 1 2 8 9 3 4 5 6 7 show "fst (fetch_handler P req w) = Respond res \<and>
     caches (snd (fetch_handler P req w)) = caches_open CACHE_NAME (caches w) \<and>
     (\<forall>n. cache_of n (caches (snd (fetch_handler P req w))) = cache_of n (caches w)) \<and>
     (\<forall>k. caches_match k (caches (snd (fetch_handler P req w))) = caches_match k (caches w)) \<and>
     pending (snd (fetch_handler P req w)) =
       pending w @ [OpenPut CACHE_NAME (request_url req) res] \<and>
     drop (length (trace w)) (trace (snd (fetch_handler P req w))) =
       (if navigation_or_html req
        then [NetFetch (request_url req), CacheOpen CACHE_NAME]
        else [CacheMatch (request_url req), NetFetch (request_url req), CacheOpen CACHE_NAME]) \<and>
     (\<forall>n u. CachePut n u \<notin> set (drop (length (trace w)) (trace (snd (fetch_handler P req w))))) \<and>
     (\<not> navigation_or_html req \<longrightarrow>
        fst (fetch_handler P req (snd (fetch_handler P req w))) = Respond res \<and>
        drop (length (trace (snd (fetch_handler P req w))))
          (trace (snd (fetch_handler P req (snd (fetch_handler P req w))))) =
            [CacheMatch (request_url req), NetFetch (request_url req), CacheOpen CACHE_NAME]) \<and>
     (pending w = [] \<and> put_ok P (request_url req) res \<longrightarrow>
        pending (run_pending P (snd (fetch_handler P req w))) = [] \<and>
        map_of (cache_of CACHE_NAME (caches (run_pending P (snd (fetch_handler P req w)))))
          (request_url req) = Some res)"
    by blast
qed

theorem response_not_awaiting_write_witness:
  "intercepted host_up req_icon \<and>
   fetch_net host_up (request_url req_icon)
     = Some (ok_response ''https://checkmate.example/icons/icon-192.png'') \<and>
   caches_match (request_url req_icon) (caches world0) = None \<and>
   pending world0 = [] \<and>
   fst (fetch_handler host_up req_icon world0)
     = Respond (ok_response ''https://checkmate.example/icons/icon-192.png'') \<and>
   caches (snd (fetch_handler host_up req_icon world0)) = [(''checkmate-gp-v1'', [])] \<and>
   caches_match ''https://checkmate.example/icons/icon-192.png''
     (caches (snd (fetch_handler host_up req_icon world0))) = None \<and>
   pending (snd (fetch_handler host_up req_icon world0))
     = [OpenPut ''checkmate-gp-v1'' ''https://checkmate.example/icons/icon-192.png''
          (ok_response ''https://checkmate.example/icons/icon-192.png'')] \<and>
   trace (snd (fetch_handler host_up req_icon world0))
     = [CacheMatch ''https://checkmate.example/icons/icon-192.png'',
        NetFetch ''https://checkmate.example/icons/icon-192.png'',
        CacheOpen ''checkmate-gp-v1''] \<and>
   drop (length (trace (snd (fetch_handler host_up req_icon world0))))
     (trace (snd (fetch_handler host_up req_icon (snd (fetch_handler host_up req_icon world0)))))
     = [CacheMatch ''https://checkmate.example/icons/icon-192.png'',
        NetFetch ''https://checkmate.example/icons/icon-192.png'',
        CacheOpen ''checkmate-gp-v1''] \<and>
   map_of (cache_of ''checkmate-gp-v1''
       (caches (run_pending host_up (snd (fetch_handler host_up req_icon world0)))))
     ''https://checkmate.example/icons/icon-192.png''
     = Some (ok_response ''https://checkmate.example/icons/icon-192.png'')"
proof -
  let ?u = "''https://checkmate.example/icons/icon-192.png''"
  have i: "intercepted host_up req_icon" by (simp add: request_eval host_up_def)
  have ci: "\<not> navigation_or_html req_icon" by (simp add: request_eval)
  have ui: "request_url req_icon = ?u" by (simp add: request_eval)
  have f: "fetch_net host_up (request_url req_icon) = Some (ok_response ?u)"
    by (simp add: ui host_up_def)
  have m: "caches_match (request_url req_icon) (caches world0) = None"
    and p: "pending world0 = []" and c: "caches world0 = []" and t0: "trace world0 = []"
    by (simp_all add: world0_def)
  have k: "put_ok host_up (request_url req_icon) (ok_response ?u)" by (simp add: host_up_def)
  note t = response_not_awaiting_write [of req_icon host_up "ok_response ?u" world0]
  from t i f m have "fst (fetch_handler host_up req_icon world0) = Respond (ok_response ?u)"
    by blast
  moreover from t i f m
  have "caches (snd (fetch_handler host_up req_icon world0)) = caches_open CACHE_NAME (caches world0)"
    by blast
  then have "caches (snd (fetch_handler host_up req_icon world0)) = [(''checkmate-gp-v1'', [])]"
    by (simp add: c caches_open_def CACHE_NAME_def)
  moreover from t i f m
  have "\<forall>k. caches_match k (caches (snd (fetch_handler host_up req_icon world0)))
          = caches_match k (caches world0)"
    by blast
  then have "caches_match ?u (caches (snd (fetch_handler host_up req_icon world0))) = None"
    by (simp add: c)
  moreover from t i f m
  have "pending (snd (fetch_handler host_up req_icon world0))
          = pending world0 @ [OpenPut CACHE_NAME (request_url req_icon) (ok_response ?u)]"
    by blast
  then have "pending (snd (fetch_handler host_up req_icon world0))
          = [OpenPut ''checkmate-gp-v1'' ?u (ok_response ?u)]"
    by (simp add: p ui CACHE_NAME_def)
  moreover from t i f m
  have "drop (length (trace world0)) (trace (snd (fetch_handler host_up req_icon world0)))
          = (if navigation_or_html req_icon
             then [NetFetch (request_url req_icon), CacheOpen CACHE_NAME]
             else [CacheMatch (request_url req_icon), NetFetch (request_url req_icon),
                   CacheOpen CACHE_NAME])"
    by blast
  with ci have "trace (snd (fetch_handler host_up req_icon world0))
          = [CacheMatch ?u, NetFetch ?u, CacheOpen ''checkmate-gp-v1'']"
    by (simp add: ui t0 CACHE_NAME_def)
  moreover from t i f m ci
  have "drop (length (trace (snd (fetch_handler host_up req_icon world0))))
     (trace (snd (fetch_handler host_up req_icon (snd (fetch_handler host_up req_icon world0)))))
     = [CacheMatch (request_url req_icon), NetFetch (request_url req_icon), CacheOpen CACHE_NAME]"
    by blast
  then have "drop (length (trace (snd (fetch_handler host_up req_icon world0))))
     (trace (snd (fetch_handler host_up req_icon (snd (fetch_handler host_up req_icon world0)))))
     = [CacheMatch ?u, NetFetch ?u, CacheOpen ''checkmate-gp-v1'']"
    by (simp add: ui CACHE_NAME_def)
  moreover from t i f m p k
  have "map_of (cache_of CACHE_NAME
       (caches (run_pending host_up (snd (fetch_handler host_up req_icon world0)))))
       (request_url req_icon) = Some (ok_response ?u)"
    by blast
  then have "map_of (cache_of ''checkmate-gp-v1''
       (caches (run_pending host_up (snd (fetch_handler host_up req_icon world0))))) ?u
     = Some (ok_response ?u)"
    by (simp add: ui CACHE_NAME_def)
  ultimately show ?thesis using i f m p by blast
qed

subsection \<open>Fetch: lookups span every generation\<close>

text \<open>
  C9. The lookup of the fetch handler (the fallback of the navigation/HTML class and the
  first step of the static class) answers from whichever generation holds the key: if a
  generation of any name holds an entry, the response is an entry of some generation,
  and it is that very entry when no other generation holds the key, as when only a stale
  generation does. The writes the handler leaves behind all go to
  \<^verbatim>\<open>checkmate-gp-v1\<close>, and such a write changes no other generation.
\<close>

theorem lookup_spans_generations:
  "(intercepted P req \<and> g \<in> set (caches w) \<and> map_of (snd g) (request_url req) = Some r \<and>
    (navigation_or_html req \<longrightarrow> fetch_net P (request_url req) = None) \<longrightarrow>
      (\<exists>g' \<in> set (caches w). \<exists>r'.
          map_of (snd g') (request_url req) = Some r' \<and>
          fst (fetch_handler P req w) = Respond r') \<and>
      ((\<forall>g' \<in> set (caches w). g' \<noteq> g \<longrightarrow> map_of (snd g') (request_url req) = None) \<longrightarrow>
          fst (fetch_handler P req w) = Respond r)) \<and>
   (\<forall>t \<in> set (pending (snd (fetch_handler P req w))).
       t \<in> set (pending w) \<or> (\<exists>res. t = OpenPut ''checkmate-gp-v1'' (request_url req) res)) \<and>
   (n \<noteq> ''checkmate-gp-v1'' \<longrightarrow>
       cache_of n (caches (run_task P (OpenPut ''checkmate-gp-v1'' k res) w)) = cache_of n (caches w))"
proof (intro conjI impI)
  assume a: "intercepted P req \<and> g \<in> set (caches w) \<and> map_of (snd g) (request_url req) = Some r \<and>
    (navigation_or_html req \<longrightarrow> fetch_net P (request_url req) = None)"
  then have "caches_match (request_url req) (caches w) \<noteq> None"
    by (auto simp: caches_match_None_map_of)
  then obtain r' where m: "caches_match (request_url req) (caches w) = Some r'" by blast
  from caches_match_SomeD [OF m] obtain g' where
    "g' \<in> set (caches w)" "map_of (snd g') (request_url req) = Some r'" by blast
  moreover from a m have "fst (fetch_handler P req w) = Respond r'"
    by (intro fetch_handler_from_cache(1)) blast+
  ultimately show "\<exists>g' \<in> set (caches w). \<exists>r'.
          map_of (snd g') (request_url req) = Some r' \<and>
          fst (fetch_handler P req w) = Respond r'"
    by blast
next
  assume a: "intercepted P req \<and> g \<in> set (caches w) \<and> map_of (snd g) (request_url req) = Some r \<and>
    (navigation_or_html req \<longrightarrow> fetch_net P (request_url req) = None)"
    and u: "\<forall>g' \<in> set (caches w). g' \<noteq> g \<longrightarrow> map_of (snd g') (request_url req) = None"
  from a u have "caches_match (request_url req) (caches w) = Some r"
    by (intro caches_match_unique [of g]) blast+
  with a show "fst (fetch_handler P req w) = Respond r"
    by (intro fetch_handler_from_cache(1)) blast+
next
  show "\<forall>t \<in> set (pending (snd (fetch_handler P req w))).
       t \<in> set (pending w) \<or> (\<exists>res. t = OpenPut ''checkmate-gp-v1'' (request_url req) res)"
    by (auto simp: fetch_handler_def network_first_def cache_first_def CACHE_NAME_def
          split: option.splits)
next
  assume "n \<noteq> ''checkmate-gp-v1''"
  then show "cache_of n (caches (run_task P (OpenPut ''checkmate-gp-v1'' k res) w)) = cache_of n (caches w)"
    by (rule run_task_other)
qed

theorem lookup_spans_generations_witness:
  "intercepted host_up req_icon \<and>
   cache_of ''checkmate-gp-v1'' (caches world_stale) = [] \<and>
   map_of (cache_of ''checkmate-gp-v0'' (caches world_stale)) (request_url req_icon)
     = Some old_icon \<and>
   fst (fetch_handler host_up req_icon world_stale) = Respond old_icon \<and>
   intercepted host_down req_html \<and>
   fetch_net host_down (request_url req_html) = None \<and>
   map_of (cache_of ''checkmate-gp-v0'' (caches world_stale)) (request_url req_html)
     = Some old_page \<and>
   fst (fetch_handler host_down req_html world_stale) = Respond old_page \<and>
   OpenPut ''checkmate-gp-v1'' ''https://checkmate.example/index.html''
       (ok_response ''https://checkmate.example/index.html'')
     \<in> set (pending (snd (fetch_handler host_up req_html world_stale))) \<and>
   ''checkmate-gp-v0'' \<noteq> ''checkmate-gp-v1'' \<and>
   cache_of ''checkmate-gp-v0''
     (caches (run_task host_up
        (OpenPut ''checkmate-gp-v1'' ''https://checkmate.example/index.html''
           (ok_response ''https://checkmate.example/index.html'')) world_stale))
     = cache_of ''checkmate-gp-v0'' (caches world_stale)"
proof -
  let ?h = "''https://checkmate.example/index.html''"
  let ?u = "''https://checkmate.example/icons/icon-192.png''"
  let ?g = "(''checkmate-gp-v0'', [(?u, old_icon), (?h, old_page)])"
  have ii: "intercepted host_up req_icon" and ih: "intercepted host_down req_html"
    by (simp_all add: request_eval host_up_def host_down_def)
  have ch: "navigation_or_html req_html" and ci: "\<not> navigation_or_html req_icon"
    by (simp_all add: request_eval)
  have uh: "request_url req_html = ?h" and ui: "request_url req_icon = ?u"
    by (simp_all add: request_eval)
  have dn: "fetch_net host_down (request_url req_html) = None" by (simp add: host_down_def)
  have g: "?g \<in> set (caches world_stale)"
    and c1: "cache_of ''checkmate-gp-v1'' (caches world_stale) = []"
    and c0: "cache_of ''checkmate-gp-v0'' (caches world_stale) = snd ?g"
    by (simp_all add: world_stale_def cache_of_def)
  have mi: "map_of (snd ?g) (request_url req_icon) = Some old_icon"
    and mh: "map_of (snd ?g) (request_url req_html) = Some old_page"
    by (simp_all add: ui uh)
  have only: "\<forall>g' \<in> set (caches world_stale). g' \<noteq> ?g \<longrightarrow> map_of (snd g') k = None" for k
    by (simp add: world_stale_def)
  have d: "''checkmate-gp-v0'' \<noteq> ''checkmate-gp-v1''" by simp
  have pe: "OpenPut ''checkmate-gp-v1'' ?h (ok_response ?h)
              \<in> set (pending (snd (fetch_handler host_up req_html world_stale)))"
    by (simp add: fetch_handler_def network_first_def request_eval host_up_def CACHE_NAME_def)
  note ti = lookup_spans_generations
    [of req_icon host_up ?g world_stale old_icon "''checkmate-gp-v0''" ?h "ok_response ?h"]
  note th = lookup_spans_generations
    [of req_html host_down ?g world_stale old_page "''checkmate-gp-v0''" ?h "ok_response ?h"]
  from ti ii g mi ci only [of "request_url req_icon"]
  have "fst (fetch_handler host_up req_icon world_stale) = Respond old_icon" by blast
  moreover from th ih g mh dn only [of "request_url req_html"]
  have "fst (fetch_handler host_down req_html world_stale) = Respond old_page" by blast
  moreover from ti d
  have "cache_of ''checkmate-gp-v0''
     (caches (run_task host_up (OpenPut ''checkmate-gp-v1'' ?h (ok_response ?h)) world_stale))
     = cache_of ''checkmate-gp-v0'' (caches world_stale)" by blast
  ultimately show ?thesis using ii ih dn c1 c0 mi mh pe d by simp
qed

subsection \<open>Fetch: responses are stored whatever their status\<close>

text \<open>
  C10. Whenever the network fetch of an intercepted request resolves, with whatever
  status, the write of the clone into \<^verbatim>\<open>checkmate-gp-v1\<close> is left behind; no test of
  the status stands before it. When the host accepts the entry, it becomes the entry of
  the key in the current generation, and (no other generation holding the key) a later
  request for the key is answered with it: a static request at once, a navigation/HTML
  request when the network is down. The witness runs this with a 404 response.
\<close>

theorem error_responses_cached:
  "intercepted P req \<and> fetch_net P (request_url req) = Some res \<and>
   (navigation_or_html req \<or> caches_match (request_url req) (caches w) = None) \<longrightarrow>
     fst (fetch_handler P req w) = Respond res \<and>
     pending (snd (fetch_handler P req w)) =
       pending w @ [OpenPut ''checkmate-gp-v1'' (request_url req) res] \<and>
     (put_ok P (request_url req) res \<longrightarrow>
        map_of (cache_of ''checkmate-gp-v1''
            (caches (run_task P (OpenPut ''checkmate-gp-v1'' (request_url req) res)
                       (snd (fetch_handler P req w)))))
          (request_url req) = Some res \<and>
        ((\<forall>g \<in> set (caches w).
             fst g \<noteq> ''checkmate-gp-v1'' \<longrightarrow> map_of (snd g) (request_url req) = None) \<and>
         location_origin P' = location_origin P \<and>
         (navigation_or_html req \<longrightarrow> fetch_net P' (request_url req) = None) \<longrightarrow>
           fst (fetch_handler P' req
                 (run_task P (OpenPut ''checkmate-gp-v1'' (request_url req) res)
                    (snd (fetch_handler P req w)))) = Respond res))"
proof (intro impI)
  let ?w' = "snd (fetch_handler P req w)"
  let ?k = "request_url req"
  let ?w2 = "run_task P (OpenPut ''checkmate-gp-v1'' ?k res) ?w'"
  assume a: "intercepted P req \<and> fetch_net P ?k = Some res \<and>
   (navigation_or_html req \<or> caches_match ?k (caches w) = None)"
  note s = fetch_handler_network_success [of req P res w]
  from a have 1: "fst (fetch_handler P req w) = Respond res"
    and 2: "caches ?w' = caches_open ''checkmate-gp-v1'' (caches w)"
    and 3: "pending ?w' = pending w @ [OpenPut ''checkmate-gp-v1'' ?k res]"
    by (simp_all add: s CACHE_NAME_def)
  have 4: "map_of (cache_of ''checkmate-gp-v1'' (caches ?w2)) ?k = Some res"
    if "put_ok P ?k res"
    using that by (rule run_task_stores) (simp add: 2 caches_open_mem)
  have 5: "fst (fetch_handler P' req ?w2) = Respond res"
    if k: "put_ok P ?k res"
      and h: "(\<forall>g \<in> set (caches w).
             fst g \<noteq> ''checkmate-gp-v1'' \<longrightarrow> map_of (snd g) ?k = None) \<and>
         location_origin P' = location_origin P \<and>
         (navigation_or_html req \<longrightarrow> fetch_net P' ?k = None)"
  proof -
    from h have "\<forall>g \<in> set (caches ?w'). fst g \<noteq> ''checkmate-gp-v1'' \<longrightarrow> map_of (snd g) ?k = None"
      by (auto simp: 2 caches_open_def)
    moreover have "''checkmate-gp-v1'' \<in> fst ` set (caches ?w')"
      by (simp add: 2 caches_open_mem)
    ultimately have "caches_match ?k (caches ?w2) = Some res"
      using k by (intro caches_match_after_write) blast+
    moreover from a h have "intercepted P' req" by simp
    ultimately show ?thesis using h by (intro fetch_handler_from_cache(1)) blast+
  qed
  from 1 3 4 5 show "fst (fetch_handler P req w) = Respond res \<and>
     pending (snd (fetch_handler P req w)) =
       pending w @ [OpenPut ''checkmate-gp-v1'' (request_url req) res] \<and>
     (put_ok P (request_url req) res \<longrightarrow>
        map_of (cache_of ''checkmate-gp-v1''
            (caches (run_task P (OpenPut ''checkmate-gp-v1'' (request_url req) res)
                       (snd (fetch_handler P req w)))))
          (request_url req) = Some res \<and>
        ((\<forall>g \<in> set (caches w).
             fst g \<noteq> ''checkmate-gp-v1'' \<longrightarrow> map_of (snd g) (request_url req) = None) \<and>
         location_origin P' = location_origin P \<and>
         (navigation_or_html req \<longrightarrow> fetch_net P' (request_url req) = None) \<longrightarrow>
           fst (fetch_handler P' req
                 (run_task P (OpenPut ''checkmate-gp-v1'' (request_url req) res)
                    (snd (fetch_handler P req w)))) = Respond res))"
    by blast
qed

theorem error_responses_cached_witness:
  "intercepted host_404 req_html \<and>
   fetch_net host_404 (request_url req_html) = Some not_found \<and>
   status not_found = 404 \<and>
   put_ok host_404 (request_url req_html) not_found \<and>
   pending (snd (fetch_handler host_404 req_html world0))
     = [OpenPut ''checkmate-gp-v1'' ''https://checkmate.example/index.html'' not_found] \<and>
   map_of (cache_of ''checkmate-gp-v1''
       (caches (run_task host_404
          (OpenPut ''checkmate-gp-v1'' ''https://checkmate.example/index.html'' not_found)
          (snd (fetch_handler host_404 req_html world0)))))
     ''https://checkmate.example/index.html'' = Some not_found \<and>
   fst (fetch_handler host_down req_html
         (run_task host_404
            (OpenPut ''checkmate-gp-v1'' ''https://checkmate.example/index.html'' not_found)
            (snd (fetch_handler host_404 req_html world0)))) = Respond not_found \<and>
   intercepted host_404 req_icon \<and>
   fetch_net host_404 (request_url req_icon) = Some not_found \<and>
   caches_match (request_url req_icon) (caches world0) = None \<and>
   fst (fetch_handler host_up req_icon
         (run_task host_404
            (OpenPut ''checkmate-gp-v1'' ''https://checkmate.example/icons/icon-192.png'' not_found)
            (snd (fetch_handler host_404 req_icon world0)))) = Respond not_found"
proof -
  let ?h = "''https://checkmate.example/index.html''"
  let ?u = "''https://checkmate.example/icons/icon-192.png''"
  have ih: "intercepted host_404 req_html" and ii: "intercepted host_404 req_icon"
    by (simp_all add: request_eval host_404_def)
  have ch: "navigation_or_html req_html" and ci: "\<not> navigation_or_html req_icon"
    by (simp_all add: request_eval)
  have uh: "request_url req_html = ?h" and ui: "request_url req_icon = ?u"
    by (simp_all add: request_eval)
  have fh: "fetch_net host_404 (request_url req_html) = Some not_found"
    and fi: "fetch_net host_404 (request_url req_icon) = Some not_found"
    and kh: "put_ok host_404 (request_url req_html) not_found"
    and ki: "put_ok host_404 (request_url req_icon) not_found"
    by (simp_all add: host_404_def)
  have st: "status not_found = 404" by (simp add: not_found_def)
  have m: "caches_match k (caches world0) = None"
    and n: "\<forall>g \<in> set (caches world0). fst g \<noteq> ''checkmate-gp-v1'' \<longrightarrow> map_of (snd g) k = None"
    and p: "pending world0 = []" for k
    by (simp_all add: world0_def)
  have od: "location_origin host_down = location_origin host_404"
    and ou: "location_origin host_up = location_origin host_404"
    and dn: "fetch_net host_down (request_url req_html) = None"
    by (simp_all add: host_down_def host_up_def host_404_def)
  note th = error_responses_cached [of req_html host_404 not_found world0 host_down]
  note ti = error_responses_cached [of req_icon host_404 not_found world0 host_up]
  from th ih fh ch
  have "pending (snd (fetch_handler host_404 req_html world0))
          = [OpenPut ''checkmate-gp-v1'' ?h not_found]"
    by (simp add: p uh)
  moreover from th ih fh ch kh
  have "map_of (cache_of ''checkmate-gp-v1''
       (caches (run_task host_404 (OpenPut ''checkmate-gp-v1'' ?h not_found)
          (snd (fetch_handler host_404 req_html world0))))) ?h = Some not_found"
    unfolding uh by blast
  moreover from th ih fh ch kh n [of "request_url req_html"] od dn
  have "fst (fetch_handler host_down req_html
         (run_task host_404 (OpenPut ''checkmate-gp-v1'' ?h not_found)
            (snd (fetch_handler host_404 req_html world0)))) = Respond not_found"
    unfolding uh by blast
  moreover from ti ii fi m [of "request_url req_icon"] ki n [of "request_url req_icon"] ou ci
  have "fst (fetch_handler host_up req_icon
         (run_task host_404 (OpenPut ''checkmate-gp-v1'' ?u not_found)
            (snd (fetch_handler host_404 req_icon world0)))) = Respond not_found"
    unfolding ui by blast
  ultimately show ?thesis using ih fh st kh ii fi m [of "request_url req_icon"] by blast
qed

end
